theory Spec2Isabelle
  imports Complex_Main "HOL-Library.Word"
begin

section \<open>The developer console of \<^verbatim>\<open>src/ballistica/base/ui/dev_console.cc\<close>\<close>

text \<open>
  A shallow embedding of the controller \<^verbatim>\<open>DevConsole\<close>: its visibility state machine,
  its input session (input string, command history, history cursor) and command
  submission. Members are named as in the source, without the trailing underscore
  (\<^verbatim>\<open>state_\<close> is \<open>state\<close>): Isabelle reserves names that end in an underscore.
  Every member function takes the console and returns the updated console; what a
  function does outside the console (logging, the event loop, audio, the input
  subsystem) is appended to the trace \<open>effects\<close>, in the order of the calls.
  Times are \<^verbatim>\<open>double\<close> in the source and \<open>real\<close> here; the functions modelled
  only store them.
\<close>

subsection \<open>Data\<close>

text \<open>\<^verbatim>\<open>enum class State_ { kInactive, kMini, kFull }\<close>\<close>

datatype DevState = kInactive | kMini | kFull

text \<open>The log levels that the file uses.\<close>

datatype LogLevel = kWarning | kError

text \<open>
  Calls that leave the console: \<^verbatim>\<open>Log(level, msg)\<close>, the closure that
  \<^verbatim>\<open>SubmitCommand_\<close> pushes to the logic event loop (it holds a copy of the
  command), \<^verbatim>\<open>PlaySound(SysSound(kBlip))\<close> and \<^verbatim>\<open>input->ResetHoldStates()\<close>.
\<close>

datatype Effect =
    LogMessage LogLevel string
  | PushCall string
  | PlaySoundBlip
  | ResetHoldStates

text \<open>
  \<^verbatim>\<open>class Line_\<close>: the text \<^verbatim>\<open>s\<close> (here \<open>line_s\<close>) and its creation time. The
  lazily built text mesh only matters to drawing and is left out.
\<close>

record Line =
  creation_time :: real
  line_s :: string

text \<open>
  The members of \<^verbatim>\<open>DevConsole\<close> that the modelled functions read or write.
  \<^verbatim>\<open>input_history_\<close> is a \<^verbatim>\<open>std::list<std::string>\<close>, newest first;
  \<^verbatim>\<open>input_history_position_\<close> is an \<^verbatim>\<open>int\<close>, modelled as an unbounded integer
  (signed overflow is undefined behaviour in C++ and needs more than \<open>2^31\<close> key
  presses); \<^verbatim>\<open>lines_\<close> is the list of finalized output lines, oldest first.
\<close>

record DevConsole =
  state :: DevState
  state_prev :: DevState
  transition_start :: real
  input_string :: string
  input_text_dirty :: bool
  input_history :: "string list"
  input_history_position :: int
  input_enabled :: bool
  last_line :: string
  last_line_mesh_dirty :: bool
  lines :: "Line list"
  effects :: "Effect list"

text \<open>
  \<^verbatim>\<open>keysym->sym\<close>: the SDL key codes that \<^verbatim>\<open>HandleKeyPress\<close> and
  \<^verbatim>\<open>HandleKeyRelease\<close> distinguish, and every other code under \<open>SDLK_other\<close>.
\<close>

datatype Keycode =
    SDLK_BACKQUOTE
  | SDLK_F2
  | SDLK_ESCAPE
  | SDLK_BACKSPACE
  | SDLK_DELETE
  | SDLK_UP
  | SDLK_DOWN
  | SDLK_KP_ENTER
  | SDLK_RETURN
  | SDLK_other nat

definition kDevConsoleActivateKey1 :: Keycode where
  "kDevConsoleActivateKey1 = SDLK_BACKQUOTE"

definition kDevConsoleActivateKey2 :: Keycode where
  "kDevConsoleActivateKey2 = SDLK_F2"

text \<open>
  What \<^verbatim>\<open>HandleKeyPress\<close> reads from the rest of the engine: the build
  configuration, whether \<^verbatim>\<open>g_base->ui->dev_console()\<close> is non-null (it is then this
  console, the only one the UI owns), the display time, and the helpers whose code is
  not part of the sources at hand: \<^verbatim>\<open>Utils::UnicodeFromUTF8\<close>,
  \<^verbatim>\<open>Utils::UTF8FromUnicode\<close>, \<^verbatim>\<open>Utils::GetValidUTF8\<close> and
  \<^verbatim>\<open>TextGraphics::BreakUpString\<close> (the text and the width to break at, giving
  the pieces). The functions below take them as they are given.
\<close>

record Host =
  demo_build :: bool
  arcade_build :: bool
  ui_has_dev_console :: bool
  display_time :: real
  UnicodeFromUTF8 :: "string \<Rightarrow> 32 word list"
  UTF8FromUnicode :: "32 word list \<Rightarrow> string"
  GetValidUTF8 :: "string \<Rightarrow> string"
  BreakUpString :: "string \<Rightarrow> real \<Rightarrow> string list"

subsection \<open>Visibility state machine\<close>

text \<open>\<^verbatim>\<open>DevConsole::Dismiss\<close>, at display time \<open>now\<close>.\<close>

definition Dismiss :: "real \<Rightarrow> DevConsole \<Rightarrow> DevConsole" where
  "Dismiss now c =
     (if state c = kInactive then c
      else c\<lparr>state_prev := state c, state := kInactive, transition_start := now\<rparr>)"

text \<open>\<^verbatim>\<open>DevConsole::ToggleState\<close>, at display time \<open>now\<close>.\<close>

definition ToggleState :: "real \<Rightarrow> DevConsole \<Rightarrow> DevConsole" where
  "ToggleState now c =
     c\<lparr>state_prev := state c,
       state := (case state c of kInactive \<Rightarrow> kMini | kMini \<Rightarrow> kFull | kFull \<Rightarrow> kInactive),
       effects := effects c @ [PlaySoundBlip],
       transition_start := now\<rparr>"

text \<open>One call of \<open>ToggleState\<close> for each display time of the list, in order.\<close>

fun toggles :: "real list \<Rightarrow> DevConsole \<Rightarrow> DevConsole" where
  "toggles [] c = c"
| "toggles (t # ts) c = toggles ts (ToggleState t c)"

subsection \<open>Input session and submission\<close>

text \<open>\<^verbatim>\<open>DevConsole::set_input_string\<close>\<close>

definition set_input_string :: "string \<Rightarrow> DevConsole \<Rightarrow> DevConsole" where
  "set_input_string val c = c\<lparr>input_string := val, input_text_dirty := True\<rparr>"

text \<open>\<^verbatim>\<open>DevConsole::EnableInput\<close>\<close>

definition EnableInput :: "DevConsole \<Rightarrow> DevConsole" where
  "EnableInput c = c\<lparr>input_enabled := True\<rparr>"

text \<open>
  \<^verbatim>\<open>DevConsole::SubmitCommand_\<close>: pushes a closure holding the command to the
  event loop and returns; the command runs later, outside this call.
\<close>

definition SubmitCommand :: "string \<Rightarrow> DevConsole \<Rightarrow> DevConsole" where
  "SubmitCommand command c = c\<lparr>effects := effects c @ [PushCall command]\<rparr>"

text \<open>
  \<^verbatim>\<open>DevConsole::Exec\<close>. The comparison with \<^verbatim>\<open>"clear"\<close> is on
  \<^verbatim>\<open>input_string_\<close> as it stands; \<^verbatim>\<open>push_front\<close> then \<^verbatim>\<open>pop_back\<close> when the
  size is above 100.
\<close>

definition Exec :: "DevConsole \<Rightarrow> DevConsole" where
  "Exec c =
     (if \<not> input_enabled c
      then c\<lparr>effects := effects c @ [LogMessage kWarning ''Console input is not allowed yet.'']\<rparr>
      else
        let c1 = c\<lparr>input_history_position := 0\<rparr>;
            c2 = (if input_string c1 = ''clear''
                  then c1\<lparr>last_line := [], lines := []\<rparr>
                  else SubmitCommand (input_string c1) c1);
            c3 = c2\<lparr>input_history := input_string c2 # input_history c2\<rparr>;
            c4 = (if length (input_history c3) > 100
                  then c3\<lparr>input_history := butlast (input_history c3)\<rparr>
                  else c3)
        in c4\<lparr>input_string := [], input_text_dirty := True\<rparr>)"

text \<open>
  A run of submissions: each command is put into the input string
  (\<open>set_input_string\<close>) and submitted (\<open>Exec\<close>), in the order of the list.
\<close>

fun submit_all :: "string list \<Rightarrow> DevConsole \<Rightarrow> DevConsole" where
  "submit_all [] c = c"
| "submit_all (cmd # cmds) c = submit_all cmds (Exec (set_input_string cmd c))"

text \<open>
  The claim about \<open>Exec\<close> speaks of the trimmed command. The source has no trimming
  step; this is the usual one (white space removed at both ends), written from the
  claim's word so that the claim can be compared with the code.
\<close>

definition is_space :: "char \<Rightarrow> bool" where
  "is_space ch = (ch = CHR '' '' \<or> ch = CHR 0x09 \<or> ch = CHR 0x0A \<or> ch = CHR 0x0D)"

definition trim_spec :: "string \<Rightarrow> string" where
  "trim_spec str = rev (dropWhile is_space (rev (dropWhile is_space str)))"

subsection \<open>Keys and text input\<close>

text \<open>\<^verbatim>\<open>DevConsole::HandleTextEditing\<close>: the result and the updated console.\<close>

definition HandleTextEditing :: "string \<Rightarrow> DevConsole \<Rightarrow> bool \<times> DevConsole" where
  "HandleTextEditing text c =
     (if state c = kInactive then (False, c)
      else if text = ''`'' then (False, c)
      else (True, c\<lparr>input_string := input_string c @ text, input_text_dirty := True\<rparr>))"

text \<open>\<^verbatim>\<open>DevConsole::HandleKeyRelease\<close>; it changes nothing.\<close>

definition HandleKeyRelease :: "Keycode \<Rightarrow> DevConsole \<Rightarrow> bool" where
  "HandleKeyRelease ksym c =
     (if ksym = kDevConsoleActivateKey1 \<or> ksym = kDevConsoleActivateKey2 then True
      else state c \<noteq> kInactive)"

text \<open>
  The C++ remainder \<^verbatim>\<open>a % b\<close> on \<^verbatim>\<open>int\<close>: the quotient is truncated towards
  zero, so the result has the sign of \<open>a\<close> (HOL's \<open>mod\<close> has the sign of \<open>b\<close>).
\<close>

definition cpp_rem :: "int \<Rightarrow> int \<Rightarrow> int" where
  "cpp_rem a b = sgn a * (\<bar>a\<bar> mod \<bar>b\<bar>)"

text \<open>
  The loop of the Up/Down case: walks the history with the counter \<open>j\<close> and gives the
  entry at which \<open>j\<close> equals the index used, if the walk meets one.
\<close>

fun history_entry :: "string list \<Rightarrow> int \<Rightarrow> int \<Rightarrow> string option" where
  "history_entry [] j used = None"
| "history_entry (i # rest) j used =
     (if j = used then Some i else history_entry rest (j + 1) used)"

text \<open>The Up/Down case of \<^verbatim>\<open>HandleKeyPress\<close> (\<open>up\<close>: the key is \<^verbatim>\<open>SDLK_UP\<close>).\<close>

definition history_key :: "bool \<Rightarrow> DevConsole \<Rightarrow> DevConsole" where
  "history_key up c =
     (if input_history c = [] then c
      else
        let c1 = c\<lparr>input_history_position :=
                     (if up then input_history_position c + 1
                      else input_history_position c - 1)\<rparr>;
            input_history_position_used =
              cpp_rem (input_history_position c1 - 1) (int (length (input_history c1)))
        in case history_entry (input_history c1) 0 input_history_position_used of
             Some i \<Rightarrow> c1\<lparr>input_string := i, input_text_dirty := True\<rparr>
           | None \<Rightarrow> c1)"

text \<open>The Backspace/Delete case of \<^verbatim>\<open>HandleKeyPress\<close>.\<close>

definition delete_key :: "Host \<Rightarrow> DevConsole \<Rightarrow> DevConsole" where
  "delete_key h c =
     (let unichars = UnicodeFromUTF8 h (input_string c)
      in if unichars \<noteq> []
         then c\<lparr>input_string := UTF8FromUnicode h (butlast unichars),
                input_text_dirty := True\<rparr>
         else c)"

text \<open>\<^verbatim>\<open>DevConsole::HandleKeyPress\<close>: the result and the updated console.\<close>

definition HandleKeyPress :: "Host \<Rightarrow> Keycode \<Rightarrow> DevConsole \<Rightarrow> bool \<times> DevConsole" where
  "HandleKeyPress h ksym c =
     (if ksym = kDevConsoleActivateKey1 \<or> ksym = kDevConsoleActivateKey2
      then
        (if \<not> demo_build h \<and> \<not> arcade_build h
         then
           let c1 = c\<lparr>effects := effects c @ [ResetHoldStates]\<rparr>
           in (True, if ui_has_dev_console h then ToggleState (display_time h) c1 else c1)
         else (True, c))
      else if state c = kInactive then (False, c)
      else
        (True,
         case ksym of
           SDLK_ESCAPE \<Rightarrow> Dismiss (display_time h) c
         | SDLK_BACKSPACE \<Rightarrow> delete_key h c
         | SDLK_DELETE \<Rightarrow> delete_key h c
         | SDLK_UP \<Rightarrow> history_key True c
         | SDLK_DOWN \<Rightarrow> history_key False c
         | SDLK_KP_ENTER \<Rightarrow> Exec c
         | SDLK_RETURN \<Rightarrow> Exec c
         | _ \<Rightarrow> c))"

subsection \<open>Output lines\<close>

definition kDevConsoleLineLimit :: nat where
  "kDevConsoleLineLimit = 80"

definition kDevConsoleStringBreakUpSize :: real where
  "kDevConsoleStringBreakUpSize = 1950"

text \<open>
  \<^verbatim>\<open>std::string::c_str()\<close> read as a C string: the bytes before the first NUL.
  \<^verbatim>\<open>Print\<close> hands its texts to the helpers in this form.
\<close>

definition c_str :: "string \<Rightarrow> string" where
  "c_str str = takeWhile (\<lambda>ch. ch \<noteq> CHR 0x00) str"

text \<open>
  The loop of \<^verbatim>\<open>Print\<close> over the completed pieces: each becomes a line with the
  creation time \<open>now\<close> at the back of \<^verbatim>\<open>lines_\<close>, and the front line is popped
  when the size is above the limit.
\<close>

fun emit_lines :: "real \<Rightarrow> string list \<Rightarrow> DevConsole \<Rightarrow> DevConsole" where
  "emit_lines now [] c = c"
| "emit_lines now (b # bs) c =
     (let c1 = c\<lparr>lines := lines c @ [\<lparr>creation_time = now, line_s = b\<rparr>]\<rparr>;
          c2 = (if length (lines c1) > kDevConsoleLineLimit
                then c1\<lparr>lines := tl (lines c1)\<rparr>
                else c1)
      in emit_lines now bs c2)"

text \<open>
  \<^verbatim>\<open>DevConsole::Print\<close>, at display time \<open>display_time h\<close>. The loop runs over
  all pieces but the last. With no piece at all, \<^verbatim>\<open>broken_up.size() - 1\<close> wraps
  around in \<^verbatim>\<open>size_t\<close> and the loop reads past the vector: the result is then \<open>None\<close>.
\<close>

definition Print :: "Host \<Rightarrow> string \<Rightarrow> DevConsole \<Rightarrow> DevConsole option" where
  "Print h s_in c =
     (let s = GetValidUTF8 h (c_str s_in);
          c1 = c\<lparr>last_line := last_line c @ s\<rparr>;
          broken_up = BreakUpString h (c_str (last_line c1)) kDevConsoleStringBreakUpSize
      in if broken_up = [] then None
         else Some ((emit_lines (display_time h) (butlast broken_up) c1)
                      \<lparr>last_line := last broken_up, last_line_mesh_dirty := True\<rparr>))"

text \<open>A run of \<open>Print\<close> calls, each with the host as it is at the call.\<close>

fun prints :: "(Host \<times> string) list \<Rightarrow> DevConsole \<Rightarrow> DevConsole option" where
  "prints [] c = Some c"
| "prints ((h, s_in) # rest) c =
     (case Print h s_in c of None \<Rightarrow> None | Some c1 \<Rightarrow> prints rest c1)"

text \<open>
  The text that a \<open>Print\<close> call adds to the output: the input as a C string, as
  \<^verbatim>\<open>GetValidUTF8\<close> returns it, as the C string that \<^verbatim>\<open>BreakUpString\<close> is
  given.
\<close>

definition appended :: "Host \<times> string \<Rightarrow> string" where
  "appended p = c_str (GetValidUTF8 (fst p) (c_str (snd p)))"

text \<open>A UTF-8 continuation byte (\<^verbatim>\<open>10xxxxxx\<close>): a byte that does not start a code point.\<close>

definition is_continuation :: "char \<Rightarrow> bool" where
  "is_continuation ch = (128 \<le> (of_char ch :: nat) \<and> (of_char ch :: nat) < 192)"

text \<open>
  Modelled from the spec: the splitting of \<^verbatim>\<open>TextGraphics::BreakUpString\<close>, whose
  code is not part of the sources at hand; used in the examples only. The spec (4.3):
  the accumulator's rendered width is measured against a fixed budget; whenever the
  budget is exceeded, the accumulator is split into a finalized line and a remainder,
  at a boundary that keeps every multi-byte code point intact. Here the text is read
  code point by code point, \<open>cur\<close> being the piece read so far; a code point that
  would take the piece over the budget starts the next piece.
\<close>

fun break_spec :: "(string \<Rightarrow> real) \<Rightarrow> real \<Rightarrow> string \<Rightarrow> string \<Rightarrow> string list" where
  "break_spec string_width budget cur [] = [cur]"
| "break_spec string_width budget cur (ch # rest) =
     (if cur = [] \<or> is_continuation ch
         \<or> string_width (cur @ ch # takeWhile is_continuation rest) \<le> budget
      then break_spec string_width budget (cur @ [ch]) rest
      else cur # break_spec string_width budget [ch] rest)"

text \<open>
  Modelled from the spec: \<^verbatim>\<open>TextGraphics::BreakUpString\<close> (the text, the width to
  break at), for a given measure of the rendered width: \<open>break_spec\<close> from the empty
  piece.
\<close>

definition BreakUpString_spec :: "(string \<Rightarrow> real) \<Rightarrow> string \<Rightarrow> real \<Rightarrow> string list" where
  "BreakUpString_spec string_width text budget = break_spec string_width budget [] text"

text \<open>
  A text with at most one code point: after its first byte come continuation bytes
  only.
\<close>

definition single_code_point :: "string \<Rightarrow> bool" where
  "single_code_point u = list_all is_continuation (tl u)"

subsection \<open>Widgets\<close>

text \<open>
  \<^verbatim>\<open>Button_\<close>, \<^verbatim>\<open>ToggleButton_\<close> and \<^verbatim>\<open>TabButton_\<close> each declare the same
  placement members, the flag \<^verbatim>\<open>pressed\<close> and the same \<^verbatim>\<open>InUs\<close>; the record \<open>Box\<close>
  holds them once (\<^verbatim>\<open>x\<close> and \<^verbatim>\<open>y\<close> are \<open>box_x\<close> and \<open>box_y\<close>). Coordinates are \<^verbatim>\<open>float\<close> in
  the source and \<open>real\<close> here. The label and text scale only matter to drawing and are
  left out. A bound call is an \<^verbatim>\<open>Object::Ref<Runnable>\<close>, which may be empty: an
  option over the type \<open>'a\<close> of runnables. Running a call is not carried out here:
  \<open>HandleMouseUp\<close> returns the calls it runs, in order.
\<close>

datatype DevButtonAttach = kLeft | kCenter | kRight

text \<open>\<^verbatim>\<open>XOffs\<close>, for the screen's virtual width \<open>vw\<close>.\<close>

definition XOffs :: "real \<Rightarrow> DevButtonAttach \<Rightarrow> real" where
  "XOffs vw a = (case a of kLeft \<Rightarrow> 0 | kRight \<Rightarrow> vw | kCenter \<Rightarrow> vw * 0.5)"

record Box =
  attach :: DevButtonAttach
  box_x :: real
  box_y :: real
  width :: real
  height :: real
  pressed :: bool

record 'a Button = Box +
  call :: "'a option"

record 'a ToggleButton = Box +
  is_on :: bool
  on_call :: "'a option"
  off_call :: "'a option"

record 'a TabButton = Box +
  selected :: bool
  tab_call :: "'a option"

text \<open>\<^verbatim>\<open>InUs\<close>, the same in the three classes.\<close>

definition InUs :: "real \<Rightarrow> 'b Box_scheme \<Rightarrow> real \<Rightarrow> real \<Rightarrow> bool" where
  "InUs vw b mx0 my =
     (let mx = mx0 - XOffs vw (attach b)
      in mx \<ge> box_x b \<and> mx \<le> box_x b + width b \<and> my \<ge> box_y b \<and> my \<le> box_y b + height b)"

text \<open>The constructors: \<^verbatim>\<open>pressed{}\<close>, \<^verbatim>\<open>on{}\<close>, and every call a new runnable.\<close>

definition new_Button ::
  "DevButtonAttach \<Rightarrow> real \<Rightarrow> real \<Rightarrow> real \<Rightarrow> real \<Rightarrow> 'a \<Rightarrow> 'a Button" where
  "new_Button a x y w ht lambda =
     \<lparr>attach = a, box_x = x, box_y = y, width = w, height = ht, pressed = False,
      call = Some lambda\<rparr>"

definition new_ToggleButton ::
  "DevButtonAttach \<Rightarrow> real \<Rightarrow> real \<Rightarrow> real \<Rightarrow> real \<Rightarrow> 'a \<Rightarrow> 'a \<Rightarrow> 'a ToggleButton" where
  "new_ToggleButton a x y w ht on_lambda off_lambda =
     \<lparr>attach = a, box_x = x, box_y = y, width = w, height = ht, pressed = False,
      is_on = False, on_call = Some on_lambda, off_call = Some off_lambda\<rparr>"

definition new_TabButton ::
  "bool \<Rightarrow> DevButtonAttach \<Rightarrow> real \<Rightarrow> real \<Rightarrow> real \<Rightarrow> real \<Rightarrow> 'a \<Rightarrow> 'a TabButton" where
  "new_TabButton sel a x y w ht lambda =
     \<lparr>attach = a, box_x = x, box_y = y, width = w, height = ht, pressed = False,
      selected = sel, tab_call = Some lambda\<rparr>"

text \<open>\<^verbatim>\<open>Button_::HandleMouseDown\<close> and \<^verbatim>\<open>Button_::HandleMouseUp\<close>\<close>

definition Button_HandleMouseDown ::
  "real \<Rightarrow> real \<Rightarrow> real \<Rightarrow> 'a Button \<Rightarrow> bool \<times> 'a Button" where
  "Button_HandleMouseDown vw mx my b =
     (if InUs vw b mx my then (True, b\<lparr>pressed := True\<rparr>) else (False, b))"

definition Button_HandleMouseUp ::
  "real \<Rightarrow> real \<Rightarrow> real \<Rightarrow> 'a Button \<Rightarrow> 'a Button \<times> 'a list" where
  "Button_HandleMouseUp vw mx my b =
     (if pressed b
      then
        let b1 = b\<lparr>pressed := False\<rparr>
        in if InUs vw b1 mx my
           then (case call b1 of Some r \<Rightarrow> (b1, [r]) | None \<Rightarrow> (b1, []))
           else (b1, [])
      else (b, []))"

text \<open>\<^verbatim>\<open>ToggleButton_::HandleMouseDown\<close> and \<^verbatim>\<open>ToggleButton_::HandleMouseUp\<close>\<close>

definition ToggleButton_HandleMouseDown ::
  "real \<Rightarrow> real \<Rightarrow> real \<Rightarrow> 'a ToggleButton \<Rightarrow> bool \<times> 'a ToggleButton" where
  "ToggleButton_HandleMouseDown vw mx my b =
     (if InUs vw b mx my then (True, b\<lparr>pressed := True\<rparr>) else (False, b))"

definition ToggleButton_HandleMouseUp ::
  "real \<Rightarrow> real \<Rightarrow> real \<Rightarrow> 'a ToggleButton \<Rightarrow> 'a ToggleButton \<times> 'a list" where
  "ToggleButton_HandleMouseUp vw mx my b =
     (if pressed b
      then
        let b1 = b\<lparr>pressed := False\<rparr>
        in if InUs vw b1 mx my
           then
             let b2 = b1\<lparr>is_on := \<not> is_on b1\<rparr>
             in (case (if is_on b2 then on_call b2 else off_call b2) of
                   Some r \<Rightarrow> (b2, [r])
                 | None \<Rightarrow> (b2, []))
           else (b1, [])
      else (b, []))"

text \<open>\<^verbatim>\<open>TabButton_::HandleMouseDown\<close> and \<^verbatim>\<open>TabButton_::HandleMouseUp\<close>\<close>

definition TabButton_HandleMouseDown ::
  "real \<Rightarrow> real \<Rightarrow> real \<Rightarrow> 'a TabButton \<Rightarrow> bool \<times> 'a TabButton" where
  "TabButton_HandleMouseDown vw mx my b =
     (if InUs vw b mx my \<and> \<not> selected b then (True, b\<lparr>pressed := True\<rparr>) else (False, b))"

definition TabButton_HandleMouseUp ::
  "real \<Rightarrow> real \<Rightarrow> real \<Rightarrow> 'a TabButton \<Rightarrow> 'a TabButton \<times> 'a list" where
  "TabButton_HandleMouseUp vw mx my b =
     (if pressed b
      then
        let b1 = b\<lparr>pressed := False\<rparr>
        in if InUs vw b1 mx my
           then (case tab_call b1 of Some r \<Rightarrow> (b1, [r]) | None \<Rightarrow> (b1, []))
           else (b1, [])
      else (b, []))"

text \<open>
  \<^verbatim>\<open>class Widget_\<close>: the three kinds behind one interface, with the virtual
  functions dispatched on the kind.
\<close>

datatype 'a Widget =
    WButton "'a Button"
  | WToggleButton "'a ToggleButton"
  | WTabButton "'a TabButton"

fun HandleMouseDown :: "real \<Rightarrow> real \<Rightarrow> real \<Rightarrow> 'a Widget \<Rightarrow> bool \<times> 'a Widget" where
  "HandleMouseDown vw mx my (WButton b) =
     (let r = Button_HandleMouseDown vw mx my b in (fst r, WButton (snd r)))"
| "HandleMouseDown vw mx my (WToggleButton b) =
     (let r = ToggleButton_HandleMouseDown vw mx my b in (fst r, WToggleButton (snd r)))"
| "HandleMouseDown vw mx my (WTabButton b) =
     (let r = TabButton_HandleMouseDown vw mx my b in (fst r, WTabButton (snd r)))"

fun HandleMouseUp :: "real \<Rightarrow> real \<Rightarrow> real \<Rightarrow> 'a Widget \<Rightarrow> 'a Widget \<times> 'a list" where
  "HandleMouseUp vw mx my (WButton b) =
     (let r = Button_HandleMouseUp vw mx my b in (WButton (fst r), snd r))"
| "HandleMouseUp vw mx my (WToggleButton b) =
     (let r = ToggleButton_HandleMouseUp vw mx my b in (WToggleButton (fst r), snd r))"
| "HandleMouseUp vw mx my (WTabButton b) =
     (let r = TabButton_HandleMouseUp vw mx my b in (WTabButton (fst r), snd r))"

text \<open>Reading a widget: its \<^verbatim>\<open>pressed\<close> flag, its hit test, whether it is a selected tab.\<close>

fun is_pressed :: "'a Widget \<Rightarrow> bool" where
  "is_pressed (WButton b) = pressed b"
| "is_pressed (WToggleButton b) = pressed b"
| "is_pressed (WTabButton b) = pressed b"

fun hit :: "real \<Rightarrow> 'a Widget \<Rightarrow> real \<Rightarrow> real \<Rightarrow> bool" where
  "hit vw (WButton b) mx my = InUs vw b mx my"
| "hit vw (WToggleButton b) mx my = InUs vw b mx my"
| "hit vw (WTabButton b) mx my = InUs vw b mx my"

fun is_selected_tab :: "'a Widget \<Rightarrow> bool" where
  "is_selected_tab (WTabButton b) = selected b"
| "is_selected_tab _ = False"

text \<open>
  The call bound to the release of a widget: a button's or tab's call; for a toggle
  button, the call of the state that the release switches to.
\<close>

fun bound_call :: "'a Widget \<Rightarrow> 'a option" where
  "bound_call (WButton b) = call b"
| "bound_call (WToggleButton b) = (if is_on b then off_call b else on_call b)"
| "bound_call (WTabButton b) = tab_call b"

text \<open>Every call of the widget holds a runnable, as the constructors leave it.\<close>

fun calls_exist :: "'a Widget \<Rightarrow> bool" where
  "calls_exist (WButton b) = (call b \<noteq> None)"
| "calls_exist (WToggleButton b) = (on_call b \<noteq> None \<and> off_call b \<noteq> None)"
| "calls_exist (WTabButton b) = (tab_call b \<noteq> None)"

subsection \<open>Examples\<close>

text \<open>
  The concrete inputs of the examples: a console in the full state with three
  commands in its history and some output; the same console with no history and with
  no output; a host whose UTF-8 helpers leave ASCII text as it is, whose rendered
  width is 1000 for every code point, and whose \<^verbatim>\<open>BreakUpString\<close> is the one modelled
  above; the same host with a rendered width of 2000 for every code point, more than
  the break-up width; a tab button that is already selected; the ``Exec'' button, as
  built and once pressed.
\<close>

definition example_console :: DevConsole where
  "example_console =
     \<lparr>state = kFull, state_prev = kMini, transition_start = 1,
      input_string = ''old'', input_text_dirty = False,
      input_history = [''c3'', ''c2'', ''c1''], input_history_position = 0,
      input_enabled = True, last_line = ''tail'', last_line_mesh_dirty = False,
      lines = [\<lparr>creation_time = 0, line_s = ''out''\<rparr>], effects = []\<rparr>"

definition empty_history_console :: DevConsole where
  "empty_history_console = example_console\<lparr>input_history := []\<rparr>"

definition no_output_console :: DevConsole where
  "no_output_console = example_console\<lparr>last_line := [], lines := []\<rparr>"

definition example_width :: "string \<Rightarrow> real" where
  "example_width text = 1000 * real (length (filter (\<lambda>ch. \<not> is_continuation ch) text))"

definition example_host :: Host where
  "example_host =
     \<lparr>demo_build = False, arcade_build = False, ui_has_dev_console = True,
      display_time = 2, UnicodeFromUTF8 = map of_char,
      UTF8FromUnicode = map (\<lambda>w. char_of (unat w)),
      GetValidUTF8 = (\<lambda>text. text),
      BreakUpString = BreakUpString_spec example_width\<rparr>"

definition wide_width :: "string \<Rightarrow> real" where
  "wide_width text = 2000 * real (length (filter (\<lambda>ch. \<not> is_continuation ch) text))"

definition wide_host :: Host where
  "wide_host = example_host\<lparr>BreakUpString := BreakUpString_spec wide_width\<rparr>"

definition selected_tab :: "string Widget" where
  "selected_tab = WTabButton (new_TabButton True kCenter (-45) (-26) 90 26 ''select the tab'')"

definition example_button :: "string Widget" where
  "example_button = WButton (new_Button kRight (-33) 16 32 13 ''Exec'')"

definition pressed_button :: "string Widget" where
  "pressed_button =
     WButton ((new_Button kRight (-33) 16 32 13 ''Exec'')\<lparr>pressed := True\<rparr>)"

definition inactive_console :: DevConsole where
  "inactive_console = example_console\<lparr>state := kInactive\<rparr>"

definition disabled_console :: DevConsole where
  "disabled_console = example_console\<lparr>input_enabled := False\<rparr>"

section \<open>Properties\<close>

subsection \<open>Auxiliary facts\<close>

lemma toggles_state:
  "state (toggles ts c) =
     (if length ts mod 3 = 0 then state c
      else if length ts mod 3 = 1 then state (ToggleState 0 c)
      else state (ToggleState 0 (ToggleState 0 c)))"
proof (induction ts arbitrary: c)
  case Nil
  then show ?case by simp
next
  case (Cons t ts)
  have m: "length ts mod 3 = 0 \<or> length ts mod 3 = 1 \<or> length ts mod 3 = 2" by arith
  show ?case
    using m by (cases "state c") (auto simp: Cons.IH mod_Suc ToggleState_def)
qed

lemma exec_enabled_fields:
  assumes "input_enabled c"
  shows "input_history (Exec c) =
           (if length (input_history c) \<ge> 100 then butlast (input_string c # input_history c)
            else input_string c # input_history c)"
    and "input_string (Exec c) = []"
    and "input_enabled (Exec c)"
    and "input_history_position (Exec c) = 0"
  using assms by (auto simp: Exec_def SubmitCommand_def Let_def)

lemma exec_history_take:
  assumes "input_enabled c" "length (input_history c) \<le> 100"
  shows "input_history (Exec c) = take 100 (input_string c # input_history c)"
proof (cases "length (input_history c) = 100")
  case True
  then have "take 100 (input_string c # input_history c) = butlast (input_string c # input_history c)"
    by (simp add: butlast_conv_take)
  then show ?thesis using assms True by (simp add: exec_enabled_fields(1))
next
  case False
  then show ?thesis using assms by (simp add: exec_enabled_fields(1))
qed

lemma submit_all_history:
  assumes "input_enabled c" "length (input_history c) \<le> 100"
  shows "input_enabled (submit_all cmds c)
         \<and> input_history (submit_all cmds c) = take 100 (rev cmds @ input_history c)"
  using assms
proof (induction cmds arbitrary: c)
  case Nil
  then show ?case by simp
next
  case (Cons cmd cmds)
  let ?c = "Exec (set_input_string cmd c)"
  have en: "input_enabled (set_input_string cmd c)"
    using Cons.prems by (simp add: set_input_string_def)
  have len: "length (input_history (set_input_string cmd c)) \<le> 100"
    using Cons.prems by (simp add: set_input_string_def)
  have h: "input_history ?c = take 100 (cmd # input_history c)"
    using exec_history_take[OF en len] by (simp add: set_input_string_def)
  have en': "input_enabled ?c" using en by (rule exec_enabled_fields(3))
  have len': "length (input_history ?c) \<le> 100" by (simp add: h)
  have "take 100 (rev cmds @ take 100 (cmd # input_history c)) = take 100 (rev cmds @ cmd # input_history c)"
    by (simp add: min_def take_Cons')
  then show ?case using Cons.IH[OF en' len'] h by simp
qed

lemma submit_all_append: "submit_all (us @ vs) k = submit_all vs (submit_all us k)"
  by (induction us arbitrary: k) simp_all

lemma submit_all_input_string:
  assumes "input_enabled c" and "length (input_history c) \<le> 100" and "cmds \<noteq> []"
  shows "input_string (submit_all cmds c) = []"
proof -
  obtain ys y where ys: "cmds = ys @ [y]"
    using assms(3) by (metis rev_exhaust)
  have "input_enabled (submit_all ys c)"
    using submit_all_history[OF assms(1,2)] by simp
  then have "input_enabled (set_input_string y (submit_all ys c))"
    by (simp add: set_input_string_def)
  then have "input_string (Exec (set_input_string y (submit_all ys c))) = []"
    by (rule exec_enabled_fields(2))
  then show ?thesis by (simp add: ys submit_all_append)
qed

lemma take_rev_tl:
  assumes "length cmds = Suc n"
  shows "take n (rev cmds) = rev (tl cmds)"
proof -
  obtain x xs where x: "cmds = x # xs" using assms by (cases cmds) auto
  then have "length xs = n" using assms by simp
  then show ?thesis by (simp add: x)
qed

lemma history_entry_eq:
  "history_entry xs j used =
     (if j \<le> used \<and> used < j + int (length xs) then Some (xs ! nat (used - j)) else None)"
proof (induction xs arbitrary: j)
  case Nil
  then show ?case by simp
next
  case (Cons x xs)
  show ?case
  proof (cases "j = used")
    case True
    then show ?thesis by simp
  next
    case False
    have "nat (used - j) = Suc (nat (used - (j + 1)))" if "j < used"
      using that by simp
    then show ?thesis using False by (auto simp: Cons.IH)
  qed
qed

lemma cpp_rem_nonneg: "0 \<le> a \<Longrightarrow> 0 < b \<Longrightarrow> cpp_rem a b = a mod b"
  by (cases "a = 0") (simp_all add: cpp_rem_def)

lemma cpp_rem_neg: "a < 0 \<Longrightarrow> 0 < b \<Longrightarrow> cpp_rem a b = - ((- a) mod b)"
  by (simp add: cpp_rem_def)

lemmas key_defs =
  HandleKeyPress_def kDevConsoleActivateKey1_def kDevConsoleActivateKey2_def
  history_key_def cpp_rem_def Let_def

lemmas widget_defs =
  Button_HandleMouseDown_def Button_HandleMouseUp_def
  ToggleButton_HandleMouseDown_def ToggleButton_HandleMouseUp_def
  TabButton_HandleMouseDown_def TabButton_HandleMouseUp_def

lemma InUs_pressed [simp]: "InUs vw (b\<lparr>pressed := p\<rparr>) mx my = InUs vw b mx my"
  by (simp add: InUs_def)

subsection \<open>Visibility state machine\<close>

text \<open>
  Claim C5. \<open>ToggleState\<close> takes Inactive to Mini, Mini to Full and Full to Inactive;
  from Inactive, any number of toggles that is a multiple of three ends in Inactive;
  \<open>Dismiss\<close> takes every state to Inactive; and the states reached from Inactive by
  toggling are the three states, all of them.
\<close>

theorem toggle_cycle:
  "state (ToggleState t c) =
     (case state c of kInactive \<Rightarrow> kMini | kMini \<Rightarrow> kFull | kFull \<Rightarrow> kInactive)
   \<and> (state c = kInactive \<and> length ts mod 3 = 0 \<longrightarrow> state (toggles ts c) = kInactive)
   \<and> state (Dismiss t c) = kInactive
   \<and> (state c = kInactive \<longrightarrow> (\<forall>s. \<exists>us. length us < 3 \<and> state (toggles us c) = s))"
proof -
  have a: "state (ToggleState t c) =
      (case state c of kInactive \<Rightarrow> kMini | kMini \<Rightarrow> kFull | kFull \<Rightarrow> kInactive)"
    by (simp add: ToggleState_def)
  have b: "state c = kInactive \<and> length ts mod 3 = 0 \<longrightarrow> state (toggles ts c) = kInactive"
    by (simp add: toggles_state)
  have d: "state (Dismiss t c) = kInactive"
    by (simp add: Dismiss_def)
  have e: "\<exists>us. length us < 3 \<and> state (toggles us c) = s" if i: "state c = kInactive" for s
  proof (cases s)
    case kInactive
    then have "length ([]::real list) < 3 \<and> state (toggles [] c) = s"
      using i by simp
    then show ?thesis by blast
  next
    case kMini
    then have "length [0::real] < 3 \<and> state (toggles [0] c) = s"
      using i by (simp add: ToggleState_def)
    then show ?thesis by blast
  next
    case kFull
    then have "length [0::real, 0] < 3 \<and> state (toggles [0, 0] c) = s"
      using i by (simp add: ToggleState_def)
    then show ?thesis by blast
  qed
  from a b d e show ?thesis by blast
qed

theorem toggle_cycle_witness:
  "state inactive_console = kInactive \<and> length [1, 2, 3, 4, 5, 6 :: real] mod 3 = 0
   \<and> state (toggles [1, 2, 3, 4, 5, 6] inactive_console) = kInactive
   \<and> state (ToggleState 1 inactive_console) = kMini
   \<and> state (Dismiss 7 (ToggleState 1 inactive_console)) = kInactive"
proof -
  have i: "state inactive_console = kInactive"
    by (simp add: inactive_console_def)
  have m: "length [1, 2, 3, 4, 5, 6 :: real] mod 3 = 0" by simp
  show ?thesis
    using i m toggle_cycle[of 1 inactive_console "[1, 2, 3, 4, 5, 6]"]
      toggle_cycle[of 7 "ToggleState 1 inactive_console"]
    by simp
qed

subsection \<open>Submission\<close>

text \<open>
  Claim C6. With input not enabled, \<open>Exec\<close> logs a warning and changes nothing else:
  the input string, the command history, the history cursor and the line buffer are
  as before, and nothing is pushed to the event loop.
\<close>

theorem exec_disabled:
  "\<not> input_enabled c \<Longrightarrow>
     Exec c = c\<lparr>effects := effects c @ [LogMessage kWarning ''Console input is not allowed yet.'']\<rparr>"
  by (simp add: Exec_def)

theorem exec_disabled_witness:
  "\<not> input_enabled disabled_console
   \<and> effects (Exec disabled_console) = [LogMessage kWarning ''Console input is not allowed yet.'']
   \<and> input_string (Exec disabled_console) = ''old''
   \<and> input_history (Exec disabled_console) = [''c3'', ''c2'', ''c1'']
   \<and> input_history_position (Exec disabled_console) = 0
   \<and> lines (Exec disabled_console) = lines disabled_console
   \<and> last_line (Exec disabled_console) = ''tail''"
proof -
  have d: "\<not> input_enabled disabled_console"
    by (simp add: disabled_console_def example_console_def)
  show ?thesis
    using d exec_disabled[OF d] by (simp add: disabled_console_def example_console_def)
qed

text \<open>
  Claim C2, as the code has it. With input enabled: when the input string is exactly
  \<^verbatim>\<open>clear\<close> (compared as it stands, with no trimming), \<open>Exec\<close> empties the finalized
  lines and the accumulator and pushes nothing to the event loop; any other input
  string is pushed to the event loop as it is, and the lines and the accumulator are
  left as they were.
\<close>

theorem exec_clear_exact:
  assumes "input_enabled c"
  shows "if input_string c = ''clear''
         then lines (Exec c) = [] \<and> last_line (Exec c) = [] \<and> effects (Exec c) = effects c
         else effects (Exec c) = effects c @ [PushCall (input_string c)]
              \<and> lines (Exec c) = lines c \<and> last_line (Exec c) = last_line c"
  using assms by (simp add: Exec_def SubmitCommand_def Let_def)

theorem exec_clear_exact_witness:
  "input_enabled (set_input_string ''clear'' example_console)
   \<and> lines (Exec (set_input_string ''clear'' example_console)) = []
   \<and> last_line (Exec (set_input_string ''clear'' example_console)) = []
   \<and> effects (Exec (set_input_string ''clear'' example_console)) = []
   \<and> effects (Exec example_console) = [PushCall ''old'']
   \<and> lines (Exec example_console) = lines example_console
   \<and> last_line (Exec example_console) = ''tail''"
proof -
  have e: "input_enabled example_console"
    by (simp add: example_console_def)
  have e': "input_enabled (set_input_string ''clear'' example_console)"
    by (simp add: example_console_def set_input_string_def)
  show ?thesis
    using e' exec_clear_exact[OF e'] exec_clear_exact[OF e]
    by (simp add: example_console_def set_input_string_def)
qed

text \<open>
  The claim as stated fails: the input \<^verbatim>\<open>" clear"\<close> trims to \<^verbatim>\<open>clear\<close>, yet \<open>Exec\<close>
  keeps the lines and the accumulator and pushes the command to the event loop.
\<close>

theorem exec_clear_not_trimmed:
  "trim_spec '' clear'' = ''clear''
   \<and> input_enabled (set_input_string '' clear'' example_console)
   \<and> lines (Exec (set_input_string '' clear'' example_console)) = lines example_console
   \<and> lines example_console \<noteq> []
   \<and> last_line (Exec (set_input_string '' clear'' example_console)) = ''tail''
   \<and> effects (Exec (set_input_string '' clear'' example_console)) = [PushCall '' clear'']"
  by (simp add: trim_spec_def is_space_def Exec_def set_input_string_def SubmitCommand_def
      example_console_def Let_def)

text \<open>
  Claim C7. With input enabled and at most 100 commands in the history, \<open>Exec\<close> puts
  the input string as it is at the front of the history, keeps at most 100 entries
  and empties the input string. After a run of submissions the history is the
  commands submitted, newest first, before the earlier entries, cut to 100; after 101
  submissions on an empty history it is the last 100 of them, newest first, and the
  first is gone.
\<close>

theorem history_ring:
  assumes "input_enabled c" and "length (input_history c) \<le> 100"
  shows "input_history (Exec c) = take 100 (input_string c # input_history c)
       \<and> input_string (Exec c) = []
       \<and> input_history (submit_all cmds c) = take 100 (rev cmds @ input_history c)
       \<and> length (input_history (submit_all cmds c)) \<le> 100
       \<and> (cmds \<noteq> [] \<longrightarrow> input_string (submit_all cmds c) = [])
       \<and> (input_history c = [] \<and> length cmds = 101 \<longrightarrow>
            input_history (submit_all cmds c) = rev (tl cmds))"
proof (intro conjI impI)
  show "input_history (Exec c) = take 100 (input_string c # input_history c)"
    using assms by (rule exec_history_take)
  show "input_string (Exec c) = []"
    using assms(1) by (rule exec_enabled_fields(2))
  show d: "input_history (submit_all cmds c) = take 100 (rev cmds @ input_history c)"
    using submit_all_history[OF assms] by (rule conjunct2)
  show "length (input_history (submit_all cmds c)) \<le> 100"
    unfolding d by (rule order_trans[OF eq_imp_le[OF length_take] min.cobounded2])
  show "input_string (submit_all cmds c) = []" if "cmds \<noteq> []"
    using assms that by (rule submit_all_input_string)
  show "input_history (submit_all cmds c) = rev (tl cmds)"
    if h: "input_history c = [] \<and> length cmds = 101"
  proof -
    have "length cmds = Suc 100" using h by simp
    then have "take 100 (rev cmds) = rev (tl cmds)" by (rule take_rev_tl)
    then show ?thesis unfolding d using h by simp
  qed
qed

theorem history_ring_witness:
  "input_enabled example_console \<and> length (input_history example_console) \<le> 100
   \<and> input_history (submit_all [''a'', ''a'', '''', ''clear''] example_console)
       = [''clear'', '''', ''a'', ''a'', ''c3'', ''c2'', ''c1'']
   \<and> input_string (submit_all [''a'', ''a'', '''', ''clear''] example_console) = []
   \<and> input_history (submit_all (''first'' # replicate 100 ''x'') empty_history_console)
       = replicate 100 ''x''"
proof -
  have e: "input_enabled example_console"
    by (simp add: example_console_def)
  have h: "input_history example_console = [''c3'', ''c2'', ''c1'']"
    by (simp add: example_console_def)
  have l: "length (input_history example_console) \<le> 100"
    by (simp add: h)
  have "input_history (submit_all [''a'', ''a'', '''', ''clear''] example_console)
          = take 100 (rev [''a'', ''a'', '''', ''clear''] @ input_history example_console)"
    and "input_string (submit_all [''a'', ''a'', '''', ''clear''] example_console) = []"
    using history_ring[OF e l, of "[''a'', ''a'', '''', ''clear'']"] by blast+
  then have small:
    "input_history (submit_all [''a'', ''a'', '''', ''clear''] example_console)
       = [''clear'', '''', ''a'', ''a'', ''c3'', ''c2'', ''c1'']
     \<and> input_string (submit_all [''a'', ''a'', '''', ''clear''] example_console) = []"
    by (simp add: h)
  have e0: "input_enabled empty_history_console"
    by (simp add: example_console_def empty_history_console_def)
  have h0: "input_history empty_history_console = []"
    by (simp add: empty_history_console_def)
  have l0: "length (input_history empty_history_console) \<le> 100"
    by (simp add: h0)
  have n: "length (''first'' # replicate 100 ''x'') = 101" by simp
  have "input_history (submit_all (''first'' # replicate 100 ''x'') empty_history_console)
          = rev (tl (''first'' # replicate 100 ''x''))"
    using history_ring[OF e0 l0, of "''first'' # replicate 100 ''x''"] h0 n by blast
  then have big:
    "input_history (submit_all (''first'' # replicate 100 ''x'') empty_history_console)
       = replicate 100 ''x''"
    by simp
  from e l small big show ?thesis by blast
qed

subsection \<open>Keys and text input\<close>

text \<open>
  Claim C8. With the history \<^verbatim>\<open>c3, c2, c1\<close> (newest first), the cursor at 0 and the
  console shown, four presses of Up set the input string to \<^verbatim>\<open>c3\<close>, \<^verbatim>\<open>c2\<close>,
  \<^verbatim>\<open>c1\<close> and again \<^verbatim>\<open>c3\<close>.
\<close>

theorem history_up_cycle:
  assumes "state c \<noteq> kInactive"
    and "input_history c = [''c3'', ''c2'', ''c1'']"
    and "input_history_position c = 0"
  shows "input_string (snd (HandleKeyPress h1 SDLK_UP c)) = ''c3''
       \<and> input_string (snd (HandleKeyPress h2 SDLK_UP (snd (HandleKeyPress h1 SDLK_UP c)))) = ''c2''
       \<and> input_string (snd (HandleKeyPress h3 SDLK_UP (snd (HandleKeyPress h2 SDLK_UP
            (snd (HandleKeyPress h1 SDLK_UP c)))))) = ''c1''
       \<and> input_string (snd (HandleKeyPress h4 SDLK_UP (snd (HandleKeyPress h3 SDLK_UP
            (snd (HandleKeyPress h2 SDLK_UP (snd (HandleKeyPress h1 SDLK_UP c)))))))) = ''c3''"
  using assms by (simp add: key_defs)

theorem history_up_cycle_witness:
  "state example_console \<noteq> kInactive
   \<and> input_history example_console = [''c3'', ''c2'', ''c1'']
   \<and> input_history_position example_console = 0
   \<and> input_string (snd (HandleKeyPress example_host SDLK_UP example_console)) = ''c3''
   \<and> input_string (snd (HandleKeyPress example_host SDLK_UP
        (snd (HandleKeyPress example_host SDLK_UP example_console)))) = ''c2''
   \<and> input_string (snd (HandleKeyPress example_host SDLK_UP
        (snd (HandleKeyPress example_host SDLK_UP
          (snd (HandleKeyPress example_host SDLK_UP example_console)))))) = ''c1''
   \<and> input_string (snd (HandleKeyPress example_host SDLK_UP
        (snd (HandleKeyPress example_host SDLK_UP
          (snd (HandleKeyPress example_host SDLK_UP
            (snd (HandleKeyPress example_host SDLK_UP example_console)))))))) = ''c3''"
proof -
  have a: "state example_console \<noteq> kInactive"
    by (simp add: example_console_def)
  have h: "input_history example_console = [''c3'', ''c2'', ''c1'']"
    by (simp add: example_console_def)
  have p: "input_history_position example_console = 0"
    by (simp add: example_console_def)
  from a h p
    history_up_cycle[OF a h p, of example_host example_host example_host example_host]
  show ?thesis by blast
qed

text \<open>
  Claim C1 at the history \<^verbatim>\<open>c3, c2, c1\<close>, the cursor at 0 and the key Down. The
  cursor becomes \<open>-1\<close>; the index used is the C++ remainder of \<open>-2\<close> by 3, which is
  \<open>-2\<close> and not an index of the history; the loop meets no entry and the input string
  stays as it was. The claim has the index \<open>(-2) mod 3 = 1\<close> and the input string
  \<^verbatim>\<open>c2\<close>.
\<close>

theorem history_down_from_zero:
  "cpp_rem (-1 - 1) 3 = -2
   \<and> history_entry [''c3'', ''c2'', ''c1''] 0 (-2) = None
   \<and> fst (HandleKeyPress example_host SDLK_DOWN example_console)
   \<and> input_history_position (snd (HandleKeyPress example_host SDLK_DOWN example_console)) = -1
   \<and> input_string (snd (HandleKeyPress example_host SDLK_DOWN example_console)) = ''old''
   \<and> input_history example_console ! nat ((-1 - 1) mod 3) = ''c2''"
  by (simp add: key_defs example_console_def)

text \<open>
  What the Up/Down case does at every cursor, for a history that is not empty and
  the cursor \<open>p\<close> after the move: the cursor is stored; when \<open>p\<close> is at least 1, the
  input string becomes the entry at \<open>(p - 1) mod n\<close>; when \<open>p\<close> is 0 or negative, the
  input string becomes the newest entry if \<open>n\<close> divides \<open>p - 1\<close> and stays as it was
  otherwise.
\<close>

theorem history_key_index:
  assumes "input_history c \<noteq> []"
    and "p = (if up then input_history_position c + 1 else input_history_position c - 1)"
  shows "input_history_position (history_key up c) = p
       \<and> (1 \<le> p \<longrightarrow>
            input_string (history_key up c)
              = input_history c ! nat ((p - 1) mod int (length (input_history c))))
       \<and> (p \<le> 0 \<longrightarrow>
            input_string (history_key up c)
              = (if int (length (input_history c)) dvd (p - 1) then input_history c ! 0
                 else input_string c))"
proof -
  let ?n = "int (length (input_history c))"
  have n: "0 < ?n" using assms(1) by simp
  have hk: "history_key up c =
      (case history_entry (input_history c) 0 (cpp_rem (p - 1) ?n) of
         Some i \<Rightarrow> c\<lparr>input_history_position := p, input_string := i, input_text_dirty := True\<rparr>
       | None \<Rightarrow> c\<lparr>input_history_position := p\<rparr>)"
    unfolding assms(2) using assms(1) by (cases up) (simp_all add: history_key_def Let_def)
  have a: "input_history_position (history_key up c) = p"
    unfolding hk by (simp split: option.splits)
  have b: "input_string (history_key up c) = input_history c ! nat ((p - 1) mod ?n)" if "1 \<le> p"
  proof -
    have r: "cpp_rem (p - 1) ?n = (p - 1) mod ?n"
      using that n by (simp add: cpp_rem_nonneg)
    have "0 \<le> (p - 1) mod ?n" "(p - 1) mod ?n < ?n" using n by simp_all
    then have "history_entry (input_history c) 0 ((p - 1) mod ?n)
                 = Some (input_history c ! nat ((p - 1) mod ?n))"
      unfolding history_entry_eq by simp
    then show ?thesis unfolding hk r by simp
  qed
  have d: "input_string (history_key up c)
              = (if ?n dvd (p - 1) then input_history c ! 0 else input_string c)" if "p \<le> 0"
  proof -
    have r: "cpp_rem (p - 1) ?n = - ((1 - p) mod ?n)"
      using that n cpp_rem_neg[of "p - 1" ?n] by simp
    have nn: "0 \<le> (1 - p) mod ?n" using n by simp
    have dv: "(?n dvd (p - 1)) = ((1 - p) mod ?n = 0)"
      by (metis dvd_minus_iff minus_diff_eq mod_eq_0_iff_dvd)
    show ?thesis
    proof (cases "(1 - p) mod ?n = 0")
      case True
      then have "history_entry (input_history c) 0 (- ((1 - p) mod ?n)) = Some (input_history c ! 0)"
        unfolding history_entry_eq using n by simp
      then show ?thesis unfolding hk r dv using True by simp
    next
      case False
      then have "- ((1 - p) mod ?n) < 0" using nn by simp
      then have "history_entry (input_history c) 0 (- ((1 - p) mod ?n)) = None"
        unfolding history_entry_eq by simp
      then show ?thesis unfolding hk r dv using False by simp
    qed
  qed
  from a b d show ?thesis by blast
qed

theorem history_key_index_witness:
  "input_history example_console \<noteq> []
   \<and> input_history_position (history_key True example_console) = 1
   \<and> input_string (history_key True example_console) = ''c3''
   \<and> input_history_position (history_key False example_console) = -1
   \<and> input_string (history_key False example_console) = ''old''"
proof -
  have ne: "input_history example_console \<noteq> []"
    by (simp add: example_console_def)
  have up: "(1::int) = (if True then input_history_position example_console + 1
                        else input_history_position example_console - 1)"
    by (simp add: example_console_def)
  have down: "(-1::int) = (if False then input_history_position example_console + 1
                           else input_history_position example_console - 1)"
    by (simp add: example_console_def)
  show ?thesis
    using ne history_key_index[OF ne up] history_key_index[OF ne down]
    by (simp add: example_console_def)
qed

text \<open>
  Claim C9. A key release of one of the two activation keys is reported consumed in
  every state of the console; a release of any other key is reported consumed exactly
  when the console is not Inactive.
\<close>

theorem key_release_consumed:
  "(ksym = kDevConsoleActivateKey1 \<or> ksym = kDevConsoleActivateKey2 \<longrightarrow>
      HandleKeyRelease ksym c)
   \<and> (ksym \<noteq> kDevConsoleActivateKey1 \<and> ksym \<noteq> kDevConsoleActivateKey2 \<longrightarrow>
      HandleKeyRelease ksym c = (state c \<noteq> kInactive))"
  by (simp add: HandleKeyRelease_def)

theorem key_release_consumed_witness:
  "HandleKeyRelease SDLK_BACKQUOTE inactive_console
   \<and> HandleKeyRelease SDLK_F2 inactive_console
   \<and> \<not> HandleKeyRelease SDLK_UP inactive_console
   \<and> HandleKeyRelease SDLK_UP example_console"
  using key_release_consumed[of SDLK_BACKQUOTE inactive_console]
    key_release_consumed[of SDLK_F2 inactive_console]
    key_release_consumed[of SDLK_UP inactive_console]
    key_release_consumed[of SDLK_UP example_console]
  by (simp add: kDevConsoleActivateKey1_def kDevConsoleActivateKey2_def
      inactive_console_def example_console_def)

text \<open>
  Claim C10. While the console is not Inactive, a text input that is exactly the one
  character \<^verbatim>\<open>`\<close> is ignored and reported not consumed; any other text, also one
  that holds a backtick among other characters, is appended to the input string as
  it is and reported consumed. While Inactive, every text input is reported not
  consumed and the console is unchanged.
\<close>

theorem text_editing:
  "(state c \<noteq> kInactive \<and> text = ''`'' \<longrightarrow> HandleTextEditing text c = (False, c))
   \<and> (state c \<noteq> kInactive \<and> text \<noteq> ''`'' \<longrightarrow>
        HandleTextEditing text c
          = (True, c\<lparr>input_string := input_string c @ text, input_text_dirty := True\<rparr>))
   \<and> (state c = kInactive \<longrightarrow> HandleTextEditing text c = (False, c))"
  by (simp add: HandleTextEditing_def)

theorem text_editing_witness:
  "HandleTextEditing ''`'' example_console = (False, example_console)
   \<and> fst (HandleTextEditing ''a`b'' example_console)
   \<and> input_string (snd (HandleTextEditing ''a`b'' example_console)) = ''olda`b''
   \<and> HandleTextEditing ''a`b'' inactive_console = (False, inactive_console)"
  using text_editing[of example_console "''`''"] text_editing[of example_console "''a`b''"]
    text_editing[of inactive_console "''a`b''"]
  by (simp add: inactive_console_def example_console_def)

subsection \<open>Widgets\<close>

text \<open>
  Claim C3, as the code has it. For every widget whose calls hold a runnable, a
  press at any point followed by a release at any point: \<^verbatim>\<open>pressed\<close> is set by the
  press only if the press hits the widget; after the release \<^verbatim>\<open>pressed\<close> is
  clear, wherever the release is; the release runs the bound call, once, exactly
  when \<^verbatim>\<open>pressed\<close> was set and the release hits, and runs nothing otherwise. So
  for a widget that is not an already selected tab, a press that hits is consumed
  and sets \<^verbatim>\<open>pressed\<close>, and the release then runs the bound call once if it hits
  and nothing if it does not. A tab that is already selected does not take the press:
  the press is not consumed and leaves the tab as it was.
\<close>

theorem press_release:
  assumes "calls_exist w"
    and "HandleMouseDown v1 px py w = (consumed, w1)"
    and "HandleMouseUp v2 rx ry w1 = (w2, runs)"
  shows "(is_pressed w1 \<and> \<not> is_pressed w \<longrightarrow> hit v1 w px py)
       \<and> \<not> is_pressed w2
       \<and> map Some runs = (if is_pressed w1 \<and> hit v2 w1 rx ry then [bound_call w1] else [])
       \<and> (hit v1 w px py \<and> \<not> is_selected_tab w \<longrightarrow>
            consumed \<and> is_pressed w1
            \<and> map Some runs = (if hit v2 w rx ry then [bound_call w] else []))
       \<and> (is_selected_tab w \<longrightarrow> \<not> consumed \<and> w1 = w)"
proof (cases w)
  case (WButton b)
  then show ?thesis using assms
    by (auto simp: widget_defs Let_def split: if_splits option.splits)
next
  case (WToggleButton b)
  then show ?thesis using assms
    by (auto simp: widget_defs Let_def split: if_splits option.splits)
next
  case (WTabButton b)
  then show ?thesis using assms
    by (auto simp: widget_defs Let_def split: if_splits option.splits)
qed

theorem press_release_witness:
  "calls_exist example_button
   \<and> hit 200 example_button 180 20 \<and> \<not> hit 200 example_button 10 20
   \<and> HandleMouseDown 200 180 20 example_button = (True, pressed_button)
   \<and> HandleMouseUp 200 10 20 pressed_button = (example_button, [])
   \<and> HandleMouseUp 200 180 20 pressed_button = (example_button, [''Exec''])
   \<and> is_pressed pressed_button \<and> \<not> is_pressed example_button"
proof -
  have e: "calls_exist example_button"
    by (simp add: example_button_def new_Button_def)
  have d: "HandleMouseDown 200 180 20 example_button = (True, pressed_button)"
    by (simp add: example_button_def pressed_button_def new_Button_def widget_defs InUs_def
        XOffs_def)
  have off: "HandleMouseUp 200 10 20 pressed_button = (example_button, [])"
    by (simp add: example_button_def pressed_button_def new_Button_def widget_defs InUs_def
        XOffs_def)
  have on: "HandleMouseUp 200 180 20 pressed_button = (example_button, [''Exec''])"
    by (simp add: example_button_def pressed_button_def new_Button_def widget_defs InUs_def
        XOffs_def)
  have h: "hit 200 example_button 180 20 \<and> \<not> hit 200 example_button 10 20"
    by (simp add: example_button_def new_Button_def InUs_def XOffs_def)
  have p1: "is_pressed pressed_button"
    by (simp add: pressed_button_def)
  have p2: "\<not> is_pressed example_button"
    using press_release[OF e d off] by blast
  from e h d off on p1 p2 show ?thesis by blast
qed

text \<open>
  The claim as stated fails at a tab that is already selected: the press and the
  release both hit it, the press is not taken, and the release runs no call.
\<close>

theorem selected_tab_press_release:
  "hit 200 selected_tab 100 (-10)
   \<and> calls_exist selected_tab
   \<and> HandleMouseDown 200 100 (-10) selected_tab = (False, selected_tab)
   \<and> HandleMouseUp 200 100 (-10) (snd (HandleMouseDown 200 100 (-10) selected_tab))
       = (selected_tab, [])"
  by (simp add: selected_tab_def new_TabButton_def widget_defs InUs_def XOffs_def)

subsection \<open>Output lines\<close>

lemma emit_lines_lines:
  assumes "length (lines c) \<le> kDevConsoleLineLimit"
  shows "lines (emit_lines now bs c) =
           drop (length (lines c) + length bs - kDevConsoleLineLimit)
             (lines c @ map (\<lambda>b. \<lparr>creation_time = now, line_s = b\<rparr>) bs)"
  using assms
proof (induction bs arbitrary: c)
  case Nil
  then show ?case by simp
next
  case (Cons b bs)
  let ?l = "\<lparr>creation_time = now, line_s = b\<rparr>"
  let ?new = "map (\<lambda>b. \<lparr>creation_time = now, line_s = b\<rparr>) bs"
  show ?case
  proof (cases "length (lines c) = kDevConsoleLineLimit")
    case True
    let ?c2 = "c\<lparr>lines := tl (lines c @ [?l])\<rparr>"
    have ne: "lines c \<noteq> []" using True by (auto simp: kDevConsoleLineLimit_def)
    have step: "emit_lines now (b # bs) c = emit_lines now bs ?c2"
      using True by (simp add: Let_def)
    have len2: "length (lines ?c2) = kDevConsoleLineLimit" using True by simp
    have e1: "lines (emit_lines now bs ?c2) =
            drop (length (lines ?c2) + length bs - kDevConsoleLineLimit) (lines ?c2 @ ?new)"
      by (rule Cons.IH) (use True in simp)
    have e2: "length (lines ?c2) + length bs - kDevConsoleLineLimit = length bs"
      unfolding len2 by simp
    have e3: "lines ?c2 @ ?new = tl (lines c @ ?l # ?new)"
      using ne by simp
    have e4: "length (lines c) + length (b # bs) - kDevConsoleLineLimit = Suc (length bs)"
      using True by simp
    have "lines (emit_lines now bs ?c2) = drop (Suc (length bs)) (lines c @ ?l # ?new)"
      unfolding e1 e2 e3 by (simp only: drop_Suc)
    then show ?thesis unfolding step e4 by simp
  next
    case False
    let ?c2 = "c\<lparr>lines := lines c @ [?l]\<rparr>"
    have lt: "length (lines c) < kDevConsoleLineLimit" using False Cons.prems by simp
    have step: "emit_lines now (b # bs) c = emit_lines now bs ?c2"
      using lt by (simp add: Let_def)
    have "lines (emit_lines now bs ?c2) =
            drop (length (lines ?c2) + length bs - kDevConsoleLineLimit) (lines ?c2 @ ?new)"
      by (rule Cons.IH) (use lt in simp)
    then show ?thesis unfolding step by simp
  qed
qed

text \<open>
  The splitter modelled from the spec gives at least one piece, pieces that put
  together are the text, and all pieces but the last within the budget, when every
  single code point is within the budget.
\<close>

lemma break_spec_nonempty: "break_spec wd budget cur str \<noteq> []"
  by (induction str arbitrary: cur) simp_all

lemma break_spec_concat: "concat (break_spec wd budget cur str) = cur @ str"
  by (induction str arbitrary: cur) simp_all

lemma break_spec_widths:
  assumes u: "\<And>u. single_code_point u \<Longrightarrow> wd u \<le> budget"
    and cur: "wd (cur @ takeWhile is_continuation str) \<le> budget"
  shows "list_all (\<lambda>piece. wd piece \<le> budget) (butlast (break_spec wd budget cur str))"
  using cur
proof (induction str arbitrary: cur)
  case Nil
  then show ?case by simp
next
  case (Cons ch rest)
  have unit: "wd ([ch] @ takeWhile is_continuation rest) \<le> budget"
    by (rule u) (simp add: single_code_point_def list_all_iff, meson set_takeWhileD)
  show ?case
  proof (cases "cur = [] \<or> is_continuation ch
                  \<or> wd (cur @ ch # takeWhile is_continuation rest) \<le> budget")
    case True
    have "wd ((cur @ [ch]) @ takeWhile is_continuation rest) \<le> budget"
    proof (cases "is_continuation ch")
      case True
      then show ?thesis using Cons.prems by simp
    next
      case nc: False
      show ?thesis
      proof (cases "cur = []")
        case True
        then show ?thesis using unit by simp
      next
        case False
        then show ?thesis using True nc by simp
      qed
    qed
    then have "list_all (\<lambda>piece. wd piece \<le> budget)
                 (butlast (break_spec wd budget (cur @ [ch]) rest))"
      by (rule Cons.IH)
    then show ?thesis using True by simp
  next
    case False
    then have nc: "\<not> is_continuation ch" by simp
    have w: "wd cur \<le> budget" using Cons.prems nc by simp
    have "list_all (\<lambda>piece. wd piece \<le> budget) (butlast (break_spec wd budget [ch] rest))"
      by (rule Cons.IH) (use unit in simp)
    then show ?thesis using False w by (simp add: break_spec_nonempty)
  qed
qed

lemma BreakUpString_spec_contract:
  assumes "\<And>u. single_code_point u \<Longrightarrow> wd u \<le> budget"
  shows "BreakUpString_spec wd str budget \<noteq> []"
    and "concat (BreakUpString_spec wd str budget) = str"
    and "list_all (\<lambda>piece. wd piece \<le> budget) (butlast (BreakUpString_spec wd str budget))"
proof -
  show "BreakUpString_spec wd str budget \<noteq> []"
    by (simp add: BreakUpString_spec_def break_spec_nonempty)
  show "concat (BreakUpString_spec wd str budget) = str"
    by (simp add: BreakUpString_spec_def break_spec_concat)
  have "single_code_point (takeWhile is_continuation str)"
  proof (cases "takeWhile is_continuation str")
    case Nil
    then show ?thesis by (simp add: single_code_point_def)
  next
    case (Cons x xs)
    have "set xs \<subseteq> set (takeWhile is_continuation str)" by (simp add: Cons subset_insertI)
    then have "\<forall>ch \<in> set xs. is_continuation ch" by (meson subsetD set_takeWhileD)
    then show ?thesis by (simp add: single_code_point_def Cons list_all_iff)
  qed
  then have w0: "wd ([] @ takeWhile is_continuation str) \<le> budget"
    using assms by simp
  show "list_all (\<lambda>piece. wd piece \<le> budget) (butlast (BreakUpString_spec wd str budget))"
    unfolding BreakUpString_spec_def using assms w0 by (rule break_spec_widths)
qed

lemma c_str_no_NUL: "CHR 0x00 \<notin> set (c_str str)"
  unfolding c_str_def by (auto dest: set_takeWhileD)

lemma c_str_append: "CHR 0x00 \<notin> set x \<Longrightarrow> c_str (x @ y) = x @ c_str y"
  unfolding c_str_def by (rule takeWhile_append2) auto

lemma example_width_single: "single_code_point u \<Longrightarrow> example_width u \<le> kDevConsoleStringBreakUpSize"
proof (cases u)
  case Nil
  then show ?thesis by (simp add: example_width_def kDevConsoleStringBreakUpSize_def)
next
  case (Cons x xs)
  assume "single_code_point u"
  then have "filter (\<lambda>ch. \<not> is_continuation ch) xs = []"
    using Cons by (simp add: single_code_point_def list_all_iff filter_empty_conv)
  then show ?thesis using Cons
    by (simp add: example_width_def kDevConsoleStringBreakUpSize_def)
qed

lemma Print_step:
  assumes u: "\<And>u. single_code_point u \<Longrightarrow> wd u \<le> kDevConsoleStringBreakUpSize"
    and brk: "BreakUpString h = BreakUpString_spec wd"
    and nul: "CHR 0x00 \<notin> set (last_line c)"
    and len: "length (lines c) \<le> kDevConsoleLineLimit"
    and ok: "list_all (\<lambda>l. wd (line_s l) \<le> kDevConsoleStringBreakUpSize) (lines c)"
  shows "\<exists>c1 ev. Print h s_in c = Some c1
      \<and> concat (map line_s (ev @ lines c1)) @ last_line c1
          = concat (map line_s (lines c)) @ last_line c @ appended (h, s_in)
      \<and> length (lines c) \<le> length (lines c1)
      \<and> length (lines c1) \<le> kDevConsoleLineLimit
      \<and> (ev \<noteq> [] \<longrightarrow> length (lines c1) = kDevConsoleLineLimit)
      \<and> list_all (\<lambda>l. wd (line_s l) \<le> kDevConsoleStringBreakUpSize) (ev @ lines c1)
      \<and> CHR 0x00 \<notin> set (last_line c1)"
proof -
  define ll where "ll = last_line c @ GetValidUTF8 h (c_str s_in)"
  define b where "b = BreakUpString h (c_str ll) kDevConsoleStringBreakUpSize"
  define mk where "mk = (\<lambda>piece. \<lparr>creation_time = display_time h, line_s = piece\<rparr>)"
  define every where "every = lines c @ map mk (butlast b)"
  define k where "k = length (lines c) + length (butlast b) - kDevConsoleLineLimit"
  define c1 where "c1 = (emit_lines (display_time h) (butlast b) (c\<lparr>last_line := ll\<rparr>))
                          \<lparr>last_line := last b, last_line_mesh_dirty := True\<rparr>"
  have b_spec: "b = BreakUpString_spec wd (c_str ll) kDevConsoleStringBreakUpSize"
    by (simp add: b_def brk)
  have acc: "c_str ll = last_line c @ appended (h, s_in)"
    unfolding ll_def appended_def using nul by (simp add: c_str_append)
  have b_ne: "b \<noteq> []"
    unfolding b_spec using u by (rule BreakUpString_spec_contract(1))
  have b_cat: "concat b = c_str ll"
    unfolding b_spec using u by (rule BreakUpString_spec_contract(2))
  have b_ok: "list_all (\<lambda>piece. wd piece \<le> kDevConsoleStringBreakUpSize) (butlast b)"
    unfolding b_spec using u by (rule BreakUpString_spec_contract(3))
  have p: "Print h s_in c = Some c1"
    using b_ne by (simp add: Print_def Let_def c1_def b_def ll_def)
  have l1: "lines c1 = drop k every"
    using emit_lines_lines[of "c\<lparr>last_line := ll\<rparr>" "display_time h" "butlast b"] len
    by (simp add: c1_def every_def k_def mk_def)
  have ll1: "last_line c1 = last b" by (simp add: c1_def)
  have split: "take k every @ lines c1 = every" by (simp add: l1)
  have "map line_s (map mk (butlast b)) = butlast b"
    by (induction "butlast b") (simp_all add: mk_def comp_def)
  then have texts: "concat (map line_s every) = concat (map line_s (lines c)) @ concat (butlast b)"
    by (simp add: every_def)
  have "concat (butlast b) @ last b = concat (butlast b @ [last b])" by simp
  also have "\<dots> = c_str ll" using b_ne b_cat by simp
  finally have cat: "concat (butlast b) @ last b = c_str ll" .
  have a: "concat (map line_s (take k every @ lines c1)) @ last_line c1
             = concat (map line_s (lines c)) @ last_line c @ appended (h, s_in)"
    unfolding split texts ll1 using cat by (simp add: acc)
  have n: "length every = length (lines c) + length (butlast b)" by (simp add: every_def)
  have g: "length (lines c) \<le> length (lines c1)"
    using len by (simp add: l1 n k_def)
  have v: "length (lines c1) \<le> kDevConsoleLineLimit"
    by (simp add: l1 n k_def)
  have f: "length (lines c1) = kDevConsoleLineLimit" if "take k every \<noteq> []"
  proof -
    have "0 < k" using that by (cases k) simp_all
    then show ?thesis by (simp add: l1 n k_def)
  qed
  have "list_all (\<lambda>l. wd (line_s l) \<le> kDevConsoleStringBreakUpSize) (map mk (butlast b))"
    using b_ok by (simp add: list_all_iff mk_def)
  then have w: "list_all (\<lambda>l. wd (line_s l) \<le> kDevConsoleStringBreakUpSize) (take k every @ lines c1)"
    unfolding split using ok by (simp add: every_def)
  have "set (last b) \<subseteq> set (concat b)"
    using last_in_set[OF b_ne] by auto
  then have z: "CHR 0x00 \<notin> set (last_line c1)"
    unfolding ll1 b_cat using c_str_no_NUL[of ll] by blast
  from p a g v f w z show ?thesis by blast
qed

text \<open>
  Claim C4, as the code has it, with \<^verbatim>\<open>BreakUpString\<close> as the spec describes it
  for a measure \<open>wd\<close> of the rendered width under which every single code point is
  within the break-up width. Take a run of \<open>Print\<close> calls on a console that holds at
  most 80 lines, none wider than the break-up width, and an accumulator with no NUL
  byte (the empty output is such, and every \<open>Print\<close> leaves it so). Then every call
  returns, and at the end: the lines evicted from the front during the run, then the
  lines held, then the accumulator are, put together, the output held at the start
  followed by the texts that the calls add, in order, nothing lost and nothing
  twice; the text a call adds is its input up to the first NUL byte, as
  \<^verbatim>\<open>GetValidUTF8\<close> returns it (again up to a NUL byte). At most 80 lines are held
  and never fewer than before; a line is evicted only when 80 are held; and no line,
  held or evicted, is wider than the break-up width.
\<close>

theorem print_run:
  assumes u: "\<And>u. single_code_point u \<Longrightarrow> wd u \<le> kDevConsoleStringBreakUpSize"
    and "list_all (\<lambda>p. BreakUpString (fst p) = BreakUpString_spec wd) ps"
    and "CHR 0x00 \<notin> set (last_line c)"
    and "length (lines c) \<le> kDevConsoleLineLimit"
    and "list_all (\<lambda>l. wd (line_s l) \<le> kDevConsoleStringBreakUpSize) (lines c)"
  shows "\<exists>c' evicted. prints ps c = Some c'
      \<and> concat (map line_s (evicted @ lines c')) @ last_line c'
          = concat (map line_s (lines c)) @ last_line c @ concat (map appended ps)
      \<and> length (lines c) \<le> length (lines c')
      \<and> length (lines c') \<le> kDevConsoleLineLimit
      \<and> (evicted \<noteq> [] \<longrightarrow> length (lines c') = kDevConsoleLineLimit)
      \<and> list_all (\<lambda>l. wd (line_s l) \<le> kDevConsoleStringBreakUpSize) (evicted @ lines c')
      \<and> CHR 0x00 \<notin> set (last_line c')"
  using assms(2-)
proof (induction ps arbitrary: c)
  case Nil
  have "prints [] c = Some c
      \<and> concat (map line_s ([] @ lines c)) @ last_line c
          = concat (map line_s (lines c)) @ last_line c @ concat (map appended [])
      \<and> length (lines c) \<le> length (lines c)
      \<and> length (lines c) \<le> kDevConsoleLineLimit
      \<and> (([]::Line list) \<noteq> [] \<longrightarrow> length (lines c) = kDevConsoleLineLimit)
      \<and> list_all (\<lambda>l. wd (line_s l) \<le> kDevConsoleStringBreakUpSize) ([] @ lines c)
      \<and> CHR 0x00 \<notin> set (last_line c)"
    using Nil.prems by simp
  then show ?case by blast
next
  case (Cons p ps)
  obtain h s_in where p: "p = (h, s_in)" by (cases p)
  have brk: "BreakUpString h = BreakUpString_spec wd"
    using Cons.prems(1) by (simp add: p)
  have rest: "list_all (\<lambda>p. BreakUpString (fst p) = BreakUpString_spec wd) ps"
    using Cons.prems(1) by simp
  obtain c1 ev where pr: "Print h s_in c = Some c1"
    and t1: "concat (map line_s (ev @ lines c1)) @ last_line c1
          = concat (map line_s (lines c)) @ last_line c @ appended (h, s_in)"
    and g1: "length (lines c) \<le> length (lines c1)"
    and u1: "length (lines c1) \<le> kDevConsoleLineLimit"
    and f1: "ev \<noteq> [] \<longrightarrow> length (lines c1) = kDevConsoleLineLimit"
    and w1: "list_all (\<lambda>l. wd (line_s l) \<le> kDevConsoleStringBreakUpSize) (ev @ lines c1)"
    and z1: "CHR 0x00 \<notin> set (last_line c1)"
    using Print_step[OF u brk Cons.prems(2,3,4)] by blast
  have w1': "list_all (\<lambda>l. wd (line_s l) \<le> kDevConsoleStringBreakUpSize) (lines c1)"
    using w1 by simp
  obtain c' ev' where pr': "prints ps c1 = Some c'"
    and t2: "concat (map line_s (ev' @ lines c')) @ last_line c'
          = concat (map line_s (lines c1)) @ last_line c1 @ concat (map appended ps)"
    and g2: "length (lines c1) \<le> length (lines c')"
    and u2: "length (lines c') \<le> kDevConsoleLineLimit"
    and f2: "ev' \<noteq> [] \<longrightarrow> length (lines c') = kDevConsoleLineLimit"
    and w2: "list_all (\<lambda>l. wd (line_s l) \<le> kDevConsoleStringBreakUpSize) (ev' @ lines c')"
    and z2: "CHR 0x00 \<notin> set (last_line c')"
    using Cons.IH[OF rest z1 u1 w1'] by blast
  have a: "prints (p # ps) c = Some c'" by (simp add: p pr pr')
  have "concat (map line_s ((ev @ ev') @ lines c')) @ last_line c'
          = concat (map line_s ev) @ (concat (map line_s (ev' @ lines c')) @ last_line c')"
    by simp
  also have "\<dots> = (concat (map line_s (ev @ lines c1)) @ last_line c1) @ concat (map appended ps)"
    unfolding t2 by simp
  also have "\<dots> = concat (map line_s (lines c)) @ last_line c @ concat (map appended (p # ps))"
    unfolding t1 by (simp add: p)
  finally have t: "concat (map line_s ((ev @ ev') @ lines c')) @ last_line c'
          = concat (map line_s (lines c)) @ last_line c @ concat (map appended (p # ps))" .
  have g: "length (lines c) \<le> length (lines c')" using g1 g2 by simp
  have f: "ev @ ev' \<noteq> [] \<longrightarrow> length (lines c') = kDevConsoleLineLimit"
    using f1 f2 g2 u2 by auto
  have w: "list_all (\<lambda>l. wd (line_s l) \<le> kDevConsoleStringBreakUpSize) ((ev @ ev') @ lines c')"
    using w1 w2 by simp
  from a t g u2 f w z2 show ?case by blast
qed

theorem print_run_witness:
  "list_all (\<lambda>p. BreakUpString (fst p) = BreakUpString_spec example_width)
     [(example_host, ''ab''), (example_host, ''c'')]
   \<and> CHR 0x00 \<notin> set (last_line no_output_console)
   \<and> length (lines no_output_console) \<le> kDevConsoleLineLimit
   \<and> list_all (\<lambda>l. example_width (line_s l) \<le> kDevConsoleStringBreakUpSize)
        (lines no_output_console)
   \<and> example_width ''a'' \<le> kDevConsoleStringBreakUpSize
   \<and> (\<exists>c' evicted.
        prints [(example_host, ''ab''), (example_host, ''c'')] no_output_console = Some c'
        \<and> concat (map line_s (evicted @ lines c')) @ last_line c' = ''abc''
        \<and> length (lines c') \<le> 80
        \<and> list_all (\<lambda>l. example_width (line_s l) \<le> 1950) (evicted @ lines c'))"
proof -
  have b: "list_all (\<lambda>p. BreakUpString (fst p) = BreakUpString_spec example_width)
             [(example_host, ''ab''), (example_host, ''c'')]"
    by (simp add: example_host_def)
  have z: "CHR 0x00 \<notin> set (last_line no_output_console)"
    by (simp add: no_output_console_def)
  have l: "length (lines no_output_console) \<le> kDevConsoleLineLimit"
    by (simp add: no_output_console_def)
  have o: "list_all (\<lambda>l. example_width (line_s l) \<le> kDevConsoleStringBreakUpSize)
             (lines no_output_console)"
    by (simp add: no_output_console_def)
  have s: "example_width ''a'' \<le> kDevConsoleStringBreakUpSize"
    by (rule example_width_single) (simp add: single_code_point_def)
  have t: "concat (map line_s (lines no_output_console)) @ last_line no_output_console
             @ concat (map appended [(example_host, ''ab''), (example_host, ''c'')]) = ''abc''"
    by (simp add: no_output_console_def appended_def example_host_def c_str_def)
  show ?thesis
    using b z l o s print_run[OF example_width_single b z l o]
    unfolding t kDevConsoleLineLimit_def kDevConsoleStringBreakUpSize_def
    by blast
qed

text \<open>
  The claim as stated fails. With one code point to a line, the text \<^verbatim>\<open>a\<close> and
  then 81 times the text \<^verbatim>\<open>x\<close> make 81 finalized lines; the line \<^verbatim>\<open>a\<close> is
  evicted, and what is held is 81 times \<^verbatim>\<open>x\<close>. Of the input \<^verbatim>\<open>a\<close>, NUL,
  \<^verbatim>\<open>b\<close>, only \<^verbatim>\<open>a\<close> reaches the accumulator. And where a single code point is
  wider than the break-up width, so is the line finalized for it.
\<close>

theorem print_loses_text:
  "map_option (\<lambda>c. (map line_s (lines c), last_line c))
        (prints (map (Pair example_host) (''a'' # replicate 81 ''x'')) no_output_console)
       = Some (replicate 80 ''x'', ''x'')
   \<and> map_option (\<lambda>c. (lines c, last_line c))
        (Print example_host [CHR ''a'', CHR 0x00, CHR ''b''] no_output_console)
       = Some ([], ''a'')
   \<and> map_option (\<lambda>c. (map line_s (lines c), last_line c))
        (Print wide_host ''ab'' no_output_console)
       = Some ([''a''], ''b'')
   \<and> \<not> wide_width ''a'' \<le> kDevConsoleStringBreakUpSize"
  by code_simp

end
